theory Spec2Isabelle
  imports Main "HOL-Library.Word"
begin

section \<open>The JavaScript values the validators compute with\<close>

text \<open>
  A JavaScript string is a sequence of 16-bit code units; \<open>length\<close>, \<open>charAt\<close>,
  \<open>charCodeAt\<close>, \<open>substr\<close> and \<open>trim\<close> all work on code units.  String literals of
  the source are written \<open>js ''...''\<close>.
\<close>

type_synonym codeunit = "16 word"
type_synonym jsstring = "codeunit list"

definition js :: "string \<Rightarrow> jsstring" where
  "js s = map of_char s"

text \<open>
  The numbers of \<open>packages.js\<close> are sums and remainders of small integers, far below
  \<open>2 ^ 53\<close>, so a number is an integer or \<open>NaN\<close>.  Arithmetic with \<open>NaN\<close> gives
  \<open>NaN\<close>, every comparison with \<open>NaN\<close> is false.
\<close>

datatype jsnum = Num int | NaN

instantiation jsnum :: "{plus, minus, times}"
begin

fun plus_jsnum :: "jsnum \<Rightarrow> jsnum \<Rightarrow> jsnum" where
  "plus_jsnum (Num a) (Num b) = Num (a + b)"
| "plus_jsnum _ _ = NaN"

fun minus_jsnum :: "jsnum \<Rightarrow> jsnum \<Rightarrow> jsnum" where
  "minus_jsnum (Num a) (Num b) = Num (a - b)"
| "minus_jsnum _ _ = NaN"

fun times_jsnum :: "jsnum \<Rightarrow> jsnum \<Rightarrow> jsnum" where
  "times_jsnum (Num a) (Num b) = Num (a * b)"
| "times_jsnum _ _ = NaN"

instance ..

end

text \<open>
  \<open>a % b\<close> takes the sign of the dividend (the quotient is truncated), unlike \<open>mod\<close>
  of HOL; a zero divisor gives \<open>NaN\<close>.
\<close>

definition js_rem :: "int \<Rightarrow> int \<Rightarrow> int" where
  "js_rem a b = sgn a * (\<bar>a\<bar> mod \<bar>b\<bar>)"

fun num_rem :: "jsnum \<Rightarrow> jsnum \<Rightarrow> jsnum" where
  "num_rem (Num a) (Num b) = (if b = 0 then NaN else Num (js_rem a b))"
| "num_rem _ _ = NaN"

text \<open>\<open>Math.floor(n / 5)\<close>: the real quotient rounded down.\<close>

fun floor_div5 :: "jsnum \<Rightarrow> jsnum" where
  "floor_div5 (Num a) = Num (a div 5)"
| "floor_div5 NaN = NaN"

fun num_eq :: "jsnum \<Rightarrow> jsnum \<Rightarrow> bool" where
  "num_eq (Num a) (Num b) = (a = b)"
| "num_eq _ _ = False"

fun num_gt :: "jsnum \<Rightarrow> jsnum \<Rightarrow> bool" where
  "num_gt (Num a) (Num b) = (b < a)"
| "num_gt _ _ = False"

text \<open>
  White space in the sense of both \<open>String.prototype.trim\<close> (and the \<open>\s\<close> of the
  fallback the source installs) and of the conversion of a string to a number: the
  WhiteSpace and LineTerminator code units of ECMAScript.  The proofs use of this set
  only that it holds no decimal digit.
\<close>

definition is_ws :: "codeunit \<Rightarrow> bool" where
  "is_ws c = (c \<in> {0x9, 0xA, 0xB, 0xC, 0xD, 0x20, 0xA0, 0x1680, 0x2028, 0x2029,
                    0x202F, 0x205F, 0x3000, 0xFEFF} \<or> (0x2000 \<le> c \<and> c \<le> 0x200A))"

definition trim :: "jsstring \<Rightarrow> jsstring" where
  "trim s = rev (dropWhile is_ws (rev (dropWhile is_ws s)))"

text \<open>
  \<open>s.substr(start, len)\<close>: a negative \<open>start\<close> counts from the end, and the result
  stops at the end of \<open>s\<close>.
\<close>

definition substr :: "jsstring \<Rightarrow> int \<Rightarrow> int \<Rightarrow> jsstring" where
  "substr s start len =
     (let st = (if start < 0 then max (int (length s) + start) 0 else start)
      in take (nat len) (drop (nat st) s))"

text \<open>
  A string of at most one code unit: what \<open>charAt(i)\<close> and \<open>substr(i, 1)\<close> return
  (the empty string when \<open>i\<close> is out of range).  The property read \<open>s[i]\<close> is
  \<open>undefined\<close> out of range, here \<open>None\<close>.
\<close>

datatype str1 = Empty | Chr codeunit

definition charAt :: "jsstring \<Rightarrow> int \<Rightarrow> str1" where
  "charAt s i = (if 0 \<le> i \<and> i < int (length s) then Chr (s ! nat i) else Empty)"

definition at_index :: "jsstring \<Rightarrow> int \<Rightarrow> str1 option" where
  "at_index s i = (if 0 \<le> i \<and> i < int (length s) then Some (Chr (s ! nat i)) else None)"

definition charCodeAt :: "jsstring \<Rightarrow> int \<Rightarrow> jsnum" where
  "charCodeAt s i = (if 0 \<le> i \<and> i < int (length s) then Num (uint (s ! nat i)) else NaN)"

text \<open>
  \<open>Number(c)\<close>, and the conversion \<open>==\<close> applies to a string compared with a number,
  for a string of at most one code unit: the empty string and a white space character
  are 0, a decimal digit is its value, every other character is \<open>NaN\<close>.
\<close>

definition is_digit :: "codeunit \<Rightarrow> bool" where
  "is_digit c = (0x30 \<le> c \<and> c \<le> 0x39)"

fun Number :: "str1 \<Rightarrow> jsnum" where
  "Number Empty = Num 0"
| "Number (Chr c) =
     (if is_ws c then Num 0 else if is_digit c then Num (uint c - 48) else NaN)"

text \<open>\<open>n == v\<close> for a number \<open>n\<close> and \<open>v\<close> a short string or \<open>undefined\<close>.\<close>

fun loose_eq :: "jsnum \<Rightarrow> str1 option \<Rightarrow> bool" where
  "loose_eq n None = False"
| "loose_eq n (Some v) = num_eq n (Number v)"

text \<open>
  \<open>indexOf\<close> of an array (or of the code units of a string): the first position of
  an element, \<open>-1\<close> when there is none.  In a string the empty string is found at 0.
\<close>

fun index_of :: "'a list \<Rightarrow> 'a \<Rightarrow> int" where
  "index_of [] x = -1"
| "index_of (y # ys) x =
     (if y = x then 0 else (let k = index_of ys x in if k = -1 then -1 else k + 1))"

fun str_indexOf :: "jsstring \<Rightarrow> str1 \<Rightarrow> int" where
  "str_indexOf s Empty = 0"
| "str_indexOf s (Chr c) = index_of s c"

text \<open>An array element read in arithmetic: \<open>undefined\<close> out of range, which gives \<open>NaN\<close>.\<close>

definition arr_at :: "int list \<Rightarrow> int \<Rightarrow> jsnum" where
  "arr_at xs k = (if 0 \<le> k \<and> k < int (length xs) then Num (xs ! nat k) else NaN)"

section \<open>The UPS validator\<close>

text \<open>
  \<open>_validUPS\<close> (the leading underscore of the source's private names is dropped).
  The loop runs \<open>i\<close> over the 15 characters after \<open>1Z\<close>.  The check character
  \<open>number.substr(17, 1)\<close> is the string \<open>number.charAt(17)\<close>.  The diagnostic
  \<open>console.log(number)\<close> has no effect on the result and is left out.
\<close>

definition ValidChars :: jsstring where
  "ValidChars = js ''0123456789''"

function UPS_loop :: "jsstring \<Rightarrow> int \<Rightarrow> jsnum \<Rightarrow> jsnum" where
  "UPS_loop number i iRunningTotal =
     (if i < int (length number) then
        (let c = charAt number i in
         if js_rem (i + 1) 2 = 0 then
           (if str_indexOf ValidChars c \<noteq> -1
            then UPS_loop number (i + 1) (iRunningTotal + Num 2 * Number c)
            else UPS_loop number (i + 1)
                   (iRunningTotal + num_rem (charCodeAt number i - Num 63) (Num 10)))
         else
           (if str_indexOf ValidChars c \<noteq> -1
            then UPS_loop number (i + 1) (iRunningTotal + Number c)
            else (let n = num_rem (charCodeAt number i - Num 63) (Num 10)
                  in UPS_loop number (i + 1)
                       (iRunningTotal + (Num 2 * n - Num 9 * floor_div5 n)))))
      else iRunningTotal)"
  by pat_completeness auto
termination
  by (relation "measure (\<lambda>(number, i, t). nat (int (length number) - i))") auto

definition validUPS :: "jsstring \<Rightarrow> bool" where
  "validUPS number0 =
     (let number = trim number0 in
      if length number \<noteq> 18 then False
      else
        (let check = charAt number 17 in
         if substr number 0 2 \<noteq> js ''1Z'' then False
         else
           (let number = substr number 2 15;
                iRunningTotal = UPS_loop number 0 (Num 0);
                digit = num_rem iRunningTotal (Num 10)
            in if \<not> num_eq digit (Number check) \<and> num_gt digit (Num 0)
               then (let digit = Num 10 - digit in num_eq digit (Number check))
               else True)))"

section \<open>The FedEx Express validator\<close>

text \<open>The loop leaves with \<open>None\<close> where the source returns \<open>false\<close> from inside it;
  the source's \<open>total\<close> is \<open>tot\<close> here.\<close>

definition validnumbers :: jsstring where
  "validnumbers = js ''0123456789''"

definition values_tbl :: "int list" where
  "values_tbl = [3, 1, 7]"

function Express_loop :: "jsstring \<Rightarrow> int \<Rightarrow> jsnum \<Rightarrow> jsnum option" where
  "Express_loop number i tot =
     (if i < 11 then
        (let c = charAt number i in
         if str_indexOf validnumbers c = -1 then None
         else (let n = Number c
               in Express_loop number (i + 1) (tot + n * arr_at values_tbl (js_rem i 3))))
      else Some tot)"
  by pat_completeness auto
termination
  by (relation "measure (\<lambda>(number, i, t). nat (11 - i))") auto

definition validFedexExpress :: "jsstring \<Rightarrow> bool" where
  "validFedexExpress number0 =
     (let number = trim number0 in
      if length number \<noteq> 12 then False
      else
        (case Express_loop number 0 (Num 0) of
           None \<Rightarrow> False
         | Some tot \<Rightarrow>
             (let check = num_rem tot (Num 11);
                  check = (if num_eq check (Num 10) then Num 0 else check)
              in loose_eq check (at_index number 11))))"

section \<open>The FedEx Ground and USPS validators\<close>

text \<open>
  Both sum the digits of a window from right to left into two totals; the loop is the
  same but for the width \<open>w\<close> of the window (15 and 22), written once here with the
  source's two loops as its instances.
\<close>

function rtl_loop :: "int \<Rightarrow> jsstring \<Rightarrow> int \<Rightarrow> jsnum \<Rightarrow> jsnum \<Rightarrow> (jsnum \<times> jsnum) option" where
  "rtl_loop w number i evenTotal oddTotal =
     (if 0 \<le> i then
        (let c = charAt number i in
         if str_indexOf validnumbers c = -1 then None
         else if js_rem (w - i) 2 = 0
              then rtl_loop w number (i - 1) (evenTotal + Number c) oddTotal
              else rtl_loop w number (i - 1) evenTotal (oddTotal + Number c))
      else Some (evenTotal, oddTotal))"
  by pat_completeness auto
termination
  by (relation "measure (\<lambda>(w, number, i, e, od). nat (i + 1))") auto

definition valid_prefixes :: "jsstring list" where
  "valid_prefixes = [js ''96'', js ''00'']"

definition validFedexGround :: "jsstring \<Rightarrow> bool" where
  "validFedexGround number0 =
     (let number = trim number0 in
      if length number < 15 \<or> index_of valid_prefixes (substr number 0 2) = -1 then False
      else
        (let number = substr number (int (length number) - 15) 15 in
         case rtl_loop 15 number 13 (Num 0) (Num 0) of
           None \<Rightarrow> False
         | Some (evenTotal, oddTotal) \<Rightarrow>
             (let tot = evenTotal * Num 3 + oddTotal;
                  check = Num 10 - num_rem tot (Num 10)
              in loose_eq check (at_index number 14))))"

definition valid_prefix :: "jsstring list" where
  "valid_prefix = [js ''91'', js ''71'', js ''73'', js ''77'', js ''81'']"

definition validUSPS :: "jsstring \<Rightarrow> bool" where
  "validUSPS number0 =
     (let number = trim number0 in
      if length number < 22 \<or> index_of valid_prefix (substr number 0 2) = -1
         \<or> substr number 0 3 = js ''420'' then False
      else
        (let number = substr number (int (length number) - 22) 22 in
         case rtl_loop 22 number 20 (Num 0) (Num 0) of
           None \<Rightarrow> False
         | Some (evenTotal, oddTotal) \<Rightarrow>
             (let tot = evenTotal * Num 3 + oddTotal;
                  check = Num 10 - num_rem tot (Num 10)
              in loose_eq check (at_index number 21))))"

section \<open>The dispatcher and the URL builder\<close>

text \<open>The result is one of the strings \<open>ups\<close>, \<open>fedex\<close>, \<open>usps\<close>, or \<open>undefined\<close> (\<open>None\<close>).\<close>

definition IsTrackingNumber :: "jsstring \<Rightarrow> jsstring option" where
  "IsTrackingNumber number =
     (if validUPS number then Some (js ''ups'')
      else if validFedexExpress number \<or> validFedexGround number then Some (js ''fedex'')
      else if validUSPS number then Some (js ''usps'')
      else None)"

definition GetTrackingURL :: "jsstring \<Rightarrow> jsstring option" where
  "GetTrackingURL number =
     (let track = IsTrackingNumber number in
      if track = Some (js ''ups'')
      then Some (js ''http://wwwapps.ups.com/tracking/tracking.cgi?tracknum='' @ number)
      else if track = Some (js ''fedex'')
      then Some (js ''http://www.fedex.com/Tracking?tracknumbers='' @ number)
      else if track = Some (js ''usps'')
      then Some (js ''http://trkcnfrm1.smi.usps.com/PTSInternetWeb/InterLabelInquiry.do?strOrigTrackNum='' @ number)
      else None)"

section \<open>Notions the properties are stated with\<close>

text \<open>The value of a decimal digit character.\<close>

definition digit_val :: "codeunit \<Rightarrow> int" where
  "digit_val c = uint c - 48"

text \<open>
  The FedEx Express check digit as the specification words it: the first 11 digits
  weighted by 3, 1, 7 in turn, summed, taken modulo 11, and a remainder of 10 read as 0.
\<close>

definition express_check :: "jsstring \<Rightarrow> int" where
  "express_check t =
     (let r = (\<Sum>i\<leftarrow>[0..<11]. digit_val (t ! i) * [3, 1, 7] ! (i mod 3)) mod 11
      in if r = 10 then 0 else r)"

text \<open>One summand of the Express loop.\<close>

definition express_term :: "jsstring \<Rightarrow> nat \<Rightarrow> int" where
  "express_term number k = digit_val (number ! k) * values_tbl ! (k mod 3)"

text \<open>Letters, as the specification of the UPS body speaks of them.\<close>

definition is_letter :: "codeunit \<Rightarrow> bool" where
  "is_letter c = ((0x41 \<le> c \<and> c \<le> 0x5A) \<or> (0x61 \<le> c \<and> c \<le> 0x7A))"

text \<open>The character of a decimal digit.\<close>

definition digit_char :: "int \<Rightarrow> codeunit" where
  "digit_char d = word_of_int (48 + d)"

text \<open>
  The right-to-left sums of FedEx Ground and USPS over the first \<open>n\<close> characters of a
  window of width \<open>w\<close>: a digit at position \<open>k\<close> counts as even when \<open>(w - k) mod 2 = 0\<close>,
  and the weighted total is three times the even sum plus the odd sum.
\<close>

definition rtl_even :: "int \<Rightarrow> jsstring \<Rightarrow> nat \<Rightarrow> int" where
  "rtl_even w win n = (\<Sum>k\<leftarrow>[0..<n]. if (w - int k) mod 2 = 0 then digit_val (win ! k) else 0)"

definition rtl_odd :: "int \<Rightarrow> jsstring \<Rightarrow> nat \<Rightarrow> int" where
  "rtl_odd w win n = (\<Sum>k\<leftarrow>[0..<n]. if (w - int k) mod 2 = 0 then 0 else digit_val (win ! k))"

definition rtl_total :: "nat \<Rightarrow> jsstring \<Rightarrow> int" where
  "rtl_total w win = 3 * rtl_even (int w) win (w - 1) + rtl_odd (int w) win (w - 1)"

text \<open>
  The value of \<open>digit\<close> in \<open>_validUPS\<close> before it is compared: the running total over
  the 15 characters after \<open>1Z\<close>, \<open>% 10\<close>.  It is negative when the total is.
\<close>

definition UPS_digit :: "jsstring \<Rightarrow> jsnum" where
  "UPS_digit t = num_rem (UPS_loop (substr t 2 15) 0 (Num 0)) (Num 10)"

text \<open>
  The tests on length and prefix each validator makes on the trimmed string before it
  looks at a check digit (for FedEx Express: the length and the digit test of its loop).
\<close>

definition UPS_gate :: "jsstring \<Rightarrow> bool" where
  "UPS_gate t = (length t = 18 \<and> substr t 0 2 = js ''1Z'')"

definition Express_gate :: "jsstring \<Rightarrow> bool" where
  "Express_gate t = (length t = 12 \<and> list_all is_digit (take 11 t))"

definition Ground_gate :: "jsstring \<Rightarrow> bool" where
  "Ground_gate t = (15 \<le> length t \<and> index_of valid_prefixes (substr t 0 2) \<noteq> -1)"

definition USPS_gate :: "jsstring \<Rightarrow> bool" where
  "USPS_gate t = (22 \<le> length t \<and> index_of valid_prefix (substr t 0 2) \<noteq> -1 \<and>
                  substr t 0 3 \<noteq> js ''420'')"

text \<open>\<open>_validUSPS\<close> with the clause \<open>number.substr(0,3) == "420"\<close> taken out.\<close>

definition validUSPS_no420 :: "jsstring \<Rightarrow> bool" where
  "validUSPS_no420 number0 =
     (let number = trim number0 in
      if length number < 22 \<or> index_of valid_prefix (substr number 0 2) = -1 then False
      else
        (let number = substr number (int (length number) - 22) 22 in
         case rtl_loop 22 number 20 (Num 0) (Num 0) of
           None \<Rightarrow> False
         | Some (evenTotal, oddTotal) \<Rightarrow>
             (let tot = evenTotal * Num 3 + oddTotal;
                  check = Num 10 - num_rem tot (Num 10)
              in loose_eq check (at_index number 21))))"

section \<open>Basic facts about the JavaScript operations\<close>

declare UPS_loop.simps [simp del] Express_loop.simps [simp del] rtl_loop.simps [simp del]

lemma index_of_bounds: "index_of xs x = -1 \<or> 0 \<le> index_of xs x"
  by (induction xs) (auto simp: Let_def)

lemma index_of_none_iff: "index_of xs x = -1 \<longleftrightarrow> x \<notin> set xs"
proof (induction xs)
  case Nil
  show ?case by simp
next
  case (Cons y ys)
  have "index_of ys x = -1 \<or> 0 \<le> index_of ys x" by (rule index_of_bounds)
  with Cons show ?case by (auto simp: Let_def)
qed

lemma is_digit_iff_unat: "is_digit c \<longleftrightarrow> 48 \<le> unat c \<and> unat c \<le> 57"
  by (simp add: is_digit_def word_le_nat_alt)

lemma set_validnumbers: "set validnumbers = {c. is_digit c}"
proof -
  have "c \<in> set validnumbers \<longleftrightarrow> is_digit c" for c
  proof
    assume "c \<in> set validnumbers"
    then show "is_digit c"
      by (auto simp: validnumbers_def js_def is_digit_def)
  next
    assume d: "is_digit c"
    then have "unat c \<in> {48, 49, 50, 51, 52, 53, 54, 55, 56, 57}"
      unfolding is_digit_iff_unat by simp arith
    then have "c \<in> {48, 49, 50, 51, 52, 53, 54, 55, 56, 57}"
      by (auto simp: word_unat_eq_iff)
    then show "c \<in> set validnumbers"
      by (simp add: validnumbers_def js_def)
  qed
  then show ?thesis by auto
qed

lemma index_of_validnumbers: "index_of validnumbers c = -1 \<longleftrightarrow> \<not> is_digit c"
  by (simp add: index_of_none_iff set_validnumbers)

lemma digit_not_ws: "is_digit c \<Longrightarrow> \<not> is_ws c"
  unfolding is_digit_iff_unat is_ws_def
  by (auto simp: word_le_nat_alt)

lemma digit_val_range: "is_digit c \<Longrightarrow> 0 \<le> digit_val c \<and> digit_val c \<le> 9"
  by (simp add: is_digit_def digit_val_def word_le_def)

lemma Number_digit: "is_digit c \<Longrightarrow> Number (Chr c) = Num (digit_val c)"
  by (simp add: digit_not_ws digit_val_def)

lemma charAt_in: "0 \<le> i \<Longrightarrow> i < int (length s) \<Longrightarrow> charAt s i = Chr (s ! nat i)"
  by (simp add: charAt_def)

lemma js_rem_nonneg: "0 \<le> a \<Longrightarrow> 0 < b \<Longrightarrow> js_rem a b = a mod b"
  by (cases "a = 0") (simp_all add: js_rem_def)

lemma plus_Num_assoc: "(tot + Num a) + Num b = tot + Num (a + b)"
  by (cases tot) simp_all

lemma plus_Num_0: "tot + Num 0 = tot"
  by (cases tot) simp_all

text \<open>After trimming, a string that is not empty neither starts nor ends with white space.\<close>

lemma trim_last_not_ws: "trim s \<noteq> [] \<Longrightarrow> \<not> is_ws (last (trim s))"
proof -
  assume ne: "trim s \<noteq> []"
  let ?r = "dropWhile is_ws (rev (dropWhile is_ws s))"
  from ne have r: "?r \<noteq> []" by (simp add: trim_def)
  then have "\<not> is_ws (hd ?r)" by (rule hd_dropWhile)
  moreover have "last (trim s) = hd ?r" using r by (simp add: trim_def last_rev)
  ultimately show ?thesis by simp
qed

lemma trim_id: "s \<noteq> [] \<Longrightarrow> \<not> is_ws (hd s) \<Longrightarrow> \<not> is_ws (last s) \<Longrightarrow> trim s = s"
proof -
  assume s: "s \<noteq> []" and h: "\<not> is_ws (hd s)" and l: "\<not> is_ws (last s)"
  from s h have a: "dropWhile is_ws s = s" by (cases s) simp_all
  from s l have "\<not> is_ws (hd (rev s))" by (simp add: hd_rev)
  with s have b: "dropWhile is_ws (rev s) = rev s" by (cases "rev s") simp_all
  show ?thesis by (simp add: trim_def a b)
qed

lemma Number_last_trim:
  "trim s \<noteq> [] \<Longrightarrow> Number (Chr (last (trim s))) =
     (if is_digit (last (trim s)) then Num (digit_val (last (trim s))) else NaN)"
  using trim_last_not_ws [of s] by (simp add: digit_val_def)

section \<open>FedEx Express\<close>

lemma arr_at_values: "0 \<le> i \<Longrightarrow> arr_at values_tbl (js_rem i 3) = Num (values_tbl ! (nat i mod 3))"
proof -
  assume i: "0 \<le> i"
  have r: "js_rem i 3 = i mod 3" using i by (simp add: js_rem_nonneg)
  have "0 \<le> i mod 3" "i mod 3 < 3" by simp_all
  moreover have "nat (i mod 3) = nat i mod 3" using i by (simp add: nat_mod_distrib)
  ultimately show ?thesis by (simp add: r arr_at_def values_tbl_def)
qed

lemma express_term_nonneg: "is_digit (t ! k) \<Longrightarrow> 0 \<le> express_term t k"
proof -
  assume "is_digit (t ! k)"
  then have "0 \<le> digit_val (t ! k)" by (simp add: digit_val_range)
  moreover have "k mod 3 < 3" by simp
  then have "k mod 3 = 0 \<or> k mod 3 = 1 \<or> k mod 3 = 2" by arith
  then have "0 \<le> values_tbl ! (k mod 3)" by (auto simp: values_tbl_def)
  ultimately show ?thesis by (simp add: express_term_def)
qed

text \<open>
  The loop from position \<open>i\<close> on: it leaves with \<open>false\<close> at the first character up to
  position 10 that is no digit, and otherwise adds the weighted digits to the total.
\<close>

lemma Express_loop_eq:
  "0 \<le> i \<Longrightarrow> 11 \<le> length number \<Longrightarrow>
   Express_loop number i tot =
     (if \<forall>k\<in>{nat i..<11}. is_digit (number ! k)
      then Some (tot + Num (\<Sum>k\<leftarrow>[nat i..<11]. express_term number k))
      else None)"
proof (induction number i tot rule: Express_loop.induct)
  case (1 number i tot)
  show ?case
  proof (cases "i < 11")
    case False
    then show ?thesis
      by (subst Express_loop.simps) (simp add: plus_Num_0)
  next
    case True
    have ch: "charAt number i = Chr (number ! nat i)"
      using True 1(2,3) by (simp add: charAt_in)
    have up: "[nat i..<11] = nat i # [nat (i + 1)..<11]"
      using True 1(2) by (simp add: upt_conv_Cons nat_add_distrib)
    have st: "{nat i..<11} = insert (nat i) {nat (i + 1)..<11}"
      using True 1(2) by (auto simp: nat_add_distrib)
    show ?thesis
    proof (cases "is_digit (number ! nat i)")
      case False
      then show ?thesis
        using True by (subst Express_loop.simps) (simp add: ch index_of_validnumbers st)
    next
      case d: True
      have ih: "Express_loop number (i + 1)
            (tot + Number (Chr (number ! nat i)) * arr_at values_tbl (js_rem i 3)) =
          (if \<forall>k\<in>{nat (i + 1)..<11}. is_digit (number ! k)
           then Some ((tot + Number (Chr (number ! nat i)) * arr_at values_tbl (js_rem i 3))
                      + Num (\<Sum>k\<leftarrow>[nat (i + 1)..<11]. express_term number k))
           else None)"
        using 1(1)[OF True ch[symmetric] _ refl] d 1(2,3)
        by (simp add: ch index_of_validnumbers)
      have step: "Express_loop number i tot =
          Express_loop number (i + 1)
            (tot + Number (Chr (number ! nat i)) * arr_at values_tbl (js_rem i 3))"
        using True d
        by (subst Express_loop.simps) (simp add: ch index_of_validnumbers del: Number.simps)
      have eq: "tot + Number (Chr (number ! nat i)) * arr_at values_tbl (js_rem i 3)
          = tot + Num (express_term number (nat i))"
        using d 1(2) by (simp add: Number_digit arr_at_values express_term_def del: Number.simps)
      have "Express_loop number i tot =
          (if \<forall>k\<in>{nat (i + 1)..<11}. is_digit (number ! k)
           then Some ((tot + Number (Chr (number ! nat i)) * arr_at values_tbl (js_rem i 3))
                      + Num (\<Sum>k\<leftarrow>[nat (i + 1)..<11]. express_term number k))
           else None)"
        by (simp only: step ih)
      then show ?thesis
        by (simp add: eq up st d plus_Num_assoc del: Number.simps)
    qed
  qed
qed

text \<open>
  C4.  For every string, the FedEx Express validator accepts iff the trimmed string has
  exactly 12 characters, the first 11 are decimal digits, and the check value (the
  digits weighted 3, 1, 7 in turn, summed, modulo 11, with 10 read as 0) equals the
  12th character read as a digit.
\<close>

theorem FedexExpress_iff:
  "validFedexExpress s \<longleftrightarrow>
     length (trim s) = 12 \<and> (\<forall>i<11. is_digit (trim s ! i)) \<and>
     is_digit (trim s ! 11) \<and> digit_val (trim s ! 11) = express_check (trim s)"
proof (cases "length (trim s) = 12")
  case False
  then show ?thesis by (simp add: validFedexExpress_def)
next
  case len: True
  let ?t = "trim s"
  let ?S = "\<Sum>k\<leftarrow>[0..<11]. express_term ?t k"
  have ne: "?t \<noteq> []" using len by auto
  have last11: "last ?t = ?t ! 11" using len ne by (simp add: last_conv_nth)
  have loop: "Express_loop ?t 0 (Num 0) =
      (if \<forall>k<11. is_digit (?t ! k) then Some (Num ?S) else None)"
    using Express_loop_eq [of 0 ?t "Num 0"] len by (simp add: atLeast0LessThan)
  show ?thesis
  proof (cases "\<forall>k<11. is_digit (?t ! k)")
    case False
    then show ?thesis using len by (auto simp add: validFedexExpress_def loop Let_def)
  next
    case dig: True
    have S0: "0 \<le> ?S"
      by (rule sum_list_nonneg) (use dig in \<open>auto intro: express_term_nonneg\<close>)
    have rem: "num_rem (Num ?S) (Num 11) = Num (?S mod 11)"
      using S0 by (simp add: js_rem_nonneg)
    have chk: "express_check ?t = (if ?S mod 11 = 10 then 0 else ?S mod 11)"
      by (simp add: express_check_def express_term_def values_tbl_def Let_def)
    have at: "at_index ?t 11 = Some (Chr (?t ! 11))"
      using len by (simp add: at_index_def)
    have num: "Number (Chr (?t ! 11)) =
        (if is_digit (?t ! 11) then Num (digit_val (?t ! 11)) else NaN)"
      using Number_last_trim [OF ne] by (simp only: last11)
    have "validFedexExpress s \<longleftrightarrow>
        num_eq (Num (express_check ?t)) (Number (Chr (?t ! 11)))"
      using len dig
      by (simp add: validFedexExpress_def loop rem chk at Let_def
            del: Number.simps num_rem.simps)
    also have "\<dots> \<longleftrightarrow> is_digit (?t ! 11) \<and> digit_val (?t ! 11) = express_check ?t"
      by (auto simp: num simp del: Number.simps)
    finally show ?thesis using len dig by simp
  qed
qed

theorem FedexExpress_iff_witness:
  "validFedexExpress (js '' 123456789012'') \<and>
   length (trim (js '' 123456789012'')) = 12 \<and>
   is_digit (trim (js '' 123456789012'') ! 0) \<and>
   is_digit (trim (js '' 123456789012'') ! 10) \<and>
   is_digit (trim (js '' 123456789012'') ! 11) \<and>
   digit_val (trim (js '' 123456789012'') ! 11) = express_check (trim (js '' 123456789012''))"
proof -
  have v: "validFedexExpress (js '' 123456789012'')" by code_simp
  show ?thesis
    using v FedexExpress_iff [of "js '' 123456789012''"] by simp
qed

section \<open>FedEx Ground and USPS\<close>

lemma rtl_loop_eq:
  "- 1 \<le> i \<Longrightarrow> i < int (length number) \<Longrightarrow> i < w \<Longrightarrow>
   rtl_loop w number i ev od =
     (if \<forall>k<nat (i + 1). is_digit (number ! k)
      then Some (ev + Num (rtl_even w number (nat (i + 1))),
                 od + Num (rtl_odd w number (nat (i + 1))))
      else None)"
proof (induction w number i ev od rule: rtl_loop.induct)
  case (1 w number i ev od)
  show ?case
  proof (cases "0 \<le> i")
    case False
    with 1(3) have "i = -1" by simp
    then show ?thesis
      by (subst rtl_loop.simps) (simp add: rtl_even_def rtl_odd_def plus_Num_0)
  next
    case True
    have ch: "charAt number i = Chr (number ! nat i)"
      using True 1(4) by (simp add: charAt_in)
    have n: "nat (i + 1) = Suc (nat i)" "nat (i - 1 + 1) = nat i"
      using True by simp_all
    have all: "(\<forall>k<Suc (nat i). is_digit (number ! k)) \<longleftrightarrow>
        is_digit (number ! nat i) \<and> (\<forall>k<nat i. is_digit (number ! k))"
      by (auto simp: less_Suc_eq)
    have rem: "js_rem (w - i) 2 = (w - i) mod 2"
      using 1(5) by (simp add: js_rem_nonneg)
    have wk: "w - int (nat i) = w - i" using True by simp
    show ?thesis
    proof (cases "is_digit (number ! nat i)")
      case False
      then show ?thesis
        using True by (subst rtl_loop.simps) (simp add: ch index_of_validnumbers n all)
    next
      case d: True
      have nd: "Number (Chr (number ! nat i)) = Num (digit_val (number ! nat i))"
        using d by (rule Number_digit)
      show ?thesis
      proof (cases "(w - i) mod 2 = 0")
        case ev: True
        have ih: "rtl_loop w number (i - 1) (ev + Number (Chr (number ! nat i))) od =
          (if \<forall>k<nat i. is_digit (number ! k)
           then Some ((ev + Number (Chr (number ! nat i))) + Num (rtl_even w number (nat i)),
                      od + Num (rtl_odd w number (nat i)))
           else None)"
          using 1(1)[OF True ch[symmetric]] d ev rem 1(3,4,5) True
          by (simp add: ch index_of_validnumbers n del: Number.simps)
        have step: "rtl_loop w number i ev od =
            rtl_loop w number (i - 1) (ev + Number (Chr (number ! nat i))) od"
          using True d ev
          by (subst rtl_loop.simps) (simp add: ch index_of_validnumbers rem del: Number.simps)
        have "rtl_loop w number i ev od =
          (if \<forall>k<nat i. is_digit (number ! k)
           then Some ((ev + Number (Chr (number ! nat i))) + Num (rtl_even w number (nat i)),
                      od + Num (rtl_odd w number (nat i)))
           else None)"
          by (simp only: step ih)
        moreover have "rtl_even w number (Suc (nat i)) =
            digit_val (number ! nat i) + rtl_even w number (nat i)"
          "rtl_odd w number (Suc (nat i)) = rtl_odd w number (nat i)"
          using ev True by (simp_all add: rtl_even_def rtl_odd_def)
        ultimately show ?thesis
          using d by (simp add: nd n all plus_Num_assoc del: Number.simps)
      next
        case odd: False
        have ih: "rtl_loop w number (i - 1) ev (od + Number (Chr (number ! nat i))) =
          (if \<forall>k<nat i. is_digit (number ! k)
           then Some (ev + Num (rtl_even w number (nat i)),
                      (od + Number (Chr (number ! nat i))) + Num (rtl_odd w number (nat i)))
           else None)"
          using 1(2)[OF True ch[symmetric]] d odd rem 1(3,4,5) True
          by (simp add: ch index_of_validnumbers n del: Number.simps)
        have step: "rtl_loop w number i ev od =
            rtl_loop w number (i - 1) ev (od + Number (Chr (number ! nat i)))"
          using True d odd
          by (subst rtl_loop.simps) (simp add: ch index_of_validnumbers rem del: Number.simps)
        have "rtl_loop w number i ev od =
          (if \<forall>k<nat i. is_digit (number ! k)
           then Some (ev + Num (rtl_even w number (nat i)),
                      (od + Number (Chr (number ! nat i))) + Num (rtl_odd w number (nat i)))
           else None)"
          by (simp only: step ih)
        moreover have "rtl_even w number (Suc (nat i)) = rtl_even w number (nat i)"
          "rtl_odd w number (Suc (nat i)) =
            digit_val (number ! nat i) + rtl_odd w number (nat i)"
          using odd True by (simp_all add: rtl_even_def rtl_odd_def)
        ultimately show ?thesis
          using d by (simp add: nd n all plus_Num_assoc del: Number.simps)
      qed
    qed
  qed
qed

lemma rtl_sums_nonneg:
  "\<forall>k<n. is_digit (win ! k) \<Longrightarrow> 0 \<le> rtl_even w win n \<and> 0 \<le> rtl_odd w win n"
  unfolding rtl_even_def rtl_odd_def
  by (auto intro!: sum_list_nonneg simp: digit_val_range)

text \<open>The check both validators make on their window, once the prefix test has passed.\<close>

lemma rtl_check_eq:
  assumes w: "2 \<le> w" and len: "length win = w"
    and wi: "wi = int w" and i: "i = int w - 2" and j: "j = int w - 1" and m: "m = w - 1"
  shows "(case rtl_loop wi win i (Num 0) (Num 0) of
            None \<Rightarrow> False
          | Some (evenTotal, oddTotal) \<Rightarrow>
              (let tot = evenTotal * Num 3 + oddTotal;
                   check = Num 10 - num_rem tot (Num 10)
               in loose_eq check (at_index win j)))
         \<longleftrightarrow> (\<forall>k<m. is_digit (win ! k)) \<and>
             num_eq (Num (10 - rtl_total w win mod 10)) (Number (Chr (win ! m)))"
proof -
  have n: "nat (i + 1) = m" using w i m by simp
  have pre: "- 1 \<le> i" "i < int (length win)" "i < wi"
    using w len wi i by simp_all
  have loop: "rtl_loop wi win i (Num 0) (Num 0) =
      (if \<forall>k<m. is_digit (win ! k)
       then Some (Num (rtl_even wi win m), Num (rtl_odd wi win m))
       else None)"
    by (simp add: rtl_loop_eq [OF pre] n)
  have at: "at_index win j = Some (Chr (win ! m))"
    using w len j m by (simp add: at_index_def nat_diff_distrib)
  show ?thesis
  proof (cases "\<forall>k<m. is_digit (win ! k)")
    case False
    have "rtl_loop wi win i (Num 0) (Num 0) = None"
      unfolding loop using False by (rule if_not_P)
    then show ?thesis using False by (auto simp del: Number.simps)
  next
    case True
    have sl: "rtl_loop wi win i (Num 0) (Num 0) =
        Some (Num (rtl_even wi win m), Num (rtl_odd wi win m))"
      unfolding loop using True by (rule if_P)
    from True have "0 \<le> rtl_even wi win m \<and> 0 \<le> rtl_odd wi win m"
      by (rule rtl_sums_nonneg)
    then have T0: "0 \<le> rtl_total w win"
      by (simp add: rtl_total_def wi m)
    have tot: "rtl_even wi win m * 3 + rtl_odd wi win m = rtl_total w win"
      by (simp add: rtl_total_def wi m)
    have rem: "num_rem (Num (rtl_total w win)) (Num 10) = Num (rtl_total w win mod 10)"
      using T0 by (simp add: js_rem_nonneg)
    show ?thesis
      using True
      by (simp add: sl tot rem at Let_def del: Number.simps num_rem.simps)
  qed
qed

lemma last_window:
  assumes "w \<le> length t" "0 < w"
  shows "substr t (int (length t) - int w) (int w) = drop (length t - w) t"
    and "length (substr t (int (length t) - int w) (int w)) = w"
    and "substr t (int (length t) - int w) (int w) ! (w - 1) = last t"
proof -
  show a: "substr t (int (length t) - int w) (int w) = drop (length t - w) t"
    using assms by (simp add: substr_def nat_diff_distrib)
  show "length (substr t (int (length t) - int w) (int w)) = w"
    using assms by (simp add: a)
  have "t \<noteq> []" using assms by auto
  then show "substr t (int (length t) - int w) (int w) ! (w - 1) = last t"
    using assms by (simp add: a last_conv_nth)
qed

lemma FedexGround_char:
  "validFedexGround s \<longleftrightarrow>
     15 \<le> length (trim s) \<and> index_of valid_prefixes (substr (trim s) 0 2) \<noteq> -1 \<and>
     (let win = substr (trim s) (int (length (trim s)) - 15) 15 in
        (\<forall>k<14. is_digit (win ! k)) \<and> is_digit (win ! 14) \<and>
        digit_val (win ! 14) = 10 - rtl_total 15 win mod 10)"
proof (cases "15 \<le> length (trim s) \<and> index_of valid_prefixes (substr (trim s) 0 2) \<noteq> -1")
  case False
  then show ?thesis by (auto simp: validFedexGround_def)
next
  case gate: True
  let ?t = "trim s"
  let ?win = "substr ?t (int (length ?t) - 15) 15"
  have ne: "?t \<noteq> []" using gate by auto
  have wl: "length ?win = 15" and wlast: "?win ! 14 = last ?t"
    using last_window(2,3) [of 15 ?t] gate by simp_all
  have num: "Number (Chr (?win ! 14)) =
      (if is_digit (?win ! 14) then Num (digit_val (?win ! 14)) else NaN)"
    using Number_last_trim [OF ne] by (simp only: wlast)
  have chk: "(case rtl_loop 15 ?win 13 (Num 0) (Num 0) of
            None \<Rightarrow> False
          | Some (evenTotal, oddTotal) \<Rightarrow>
              (let tot = evenTotal * Num 3 + oddTotal;
                   check = Num 10 - num_rem tot (Num 10)
               in loose_eq check (at_index ?win 14)))
         \<longleftrightarrow> (\<forall>k<14. is_digit (?win ! k)) \<and>
             num_eq (Num (10 - rtl_total 15 ?win mod 10)) (Number (Chr (?win ! 14)))"
    by (rule rtl_check_eq [of 15]) (simp_all add: wl)
  have "validFedexGround s \<longleftrightarrow>
      (\<forall>k<14. is_digit (?win ! k)) \<and>
      num_eq (Num (10 - rtl_total 15 ?win mod 10)) (Number (Chr (?win ! 14)))"
    using gate
    by (simp add: validFedexGround_def Let_def chk del: Number.simps num_rem.simps)
  also have "\<dots> \<longleftrightarrow> (\<forall>k<14. is_digit (?win ! k)) \<and> is_digit (?win ! 14) \<and>
      digit_val (?win ! 14) = 10 - rtl_total 15 ?win mod 10"
    by (auto simp: num simp del: Number.simps)
  finally show ?thesis using gate by (simp add: Let_def)
qed

lemma USPS_char:
  "validUSPS s \<longleftrightarrow>
     22 \<le> length (trim s) \<and> index_of valid_prefix (substr (trim s) 0 2) \<noteq> -1 \<and>
     substr (trim s) 0 3 \<noteq> js ''420'' \<and>
     (let win = substr (trim s) (int (length (trim s)) - 22) 22 in
        (\<forall>k<21. is_digit (win ! k)) \<and> is_digit (win ! 21) \<and>
        digit_val (win ! 21) = 10 - rtl_total 22 win mod 10)"
proof (cases "22 \<le> length (trim s) \<and> index_of valid_prefix (substr (trim s) 0 2) \<noteq> -1 \<and>
     substr (trim s) 0 3 \<noteq> js ''420''")
  case False
  then show ?thesis by (auto simp: validUSPS_def)
next
  case gate: True
  let ?t = "trim s"
  let ?win = "substr ?t (int (length ?t) - 22) 22"
  have ne: "?t \<noteq> []" using gate by auto
  have wl: "length ?win = 22" and wlast: "?win ! 21 = last ?t"
    using last_window(2,3) [of 22 ?t] gate by simp_all
  have num: "Number (Chr (?win ! 21)) =
      (if is_digit (?win ! 21) then Num (digit_val (?win ! 21)) else NaN)"
    using Number_last_trim [OF ne] by (simp only: wlast)
  have chk: "(case rtl_loop 22 ?win 20 (Num 0) (Num 0) of
            None \<Rightarrow> False
          | Some (evenTotal, oddTotal) \<Rightarrow>
              (let tot = evenTotal * Num 3 + oddTotal;
                   check = Num 10 - num_rem tot (Num 10)
               in loose_eq check (at_index ?win 21)))
         \<longleftrightarrow> (\<forall>k<21. is_digit (?win ! k)) \<and>
             num_eq (Num (10 - rtl_total 22 ?win mod 10)) (Number (Chr (?win ! 21)))"
    by (rule rtl_check_eq [of 22]) (simp_all add: wl)
  have "validUSPS s \<longleftrightarrow>
      (\<forall>k<21. is_digit (?win ! k)) \<and>
      num_eq (Num (10 - rtl_total 22 ?win mod 10)) (Number (Chr (?win ! 21)))"
    using gate
    by (simp add: validUSPS_def Let_def chk del: Number.simps num_rem.simps)
  also have "\<dots> \<longleftrightarrow> (\<forall>k<21. is_digit (?win ! k)) \<and> is_digit (?win ! 21) \<and>
      digit_val (?win ! 21) = 10 - rtl_total 22 ?win mod 10"
    by (auto simp: num simp del: Number.simps)
  finally show ?thesis using gate by (simp add: Let_def)
qed

text \<open>
  A weighted total that is a multiple of 10 makes \<open>check\<close> the number 10, which no
  single character equals: both validators then reject, whatever the last character.
\<close>

lemma FedexGround_multiple_of_10:
  "rtl_total 15 (substr (trim s) (int (length (trim s)) - 15) 15) mod 10 = 0 \<Longrightarrow>
   \<not> validFedexGround s"
proof
  let ?win = "substr (trim s) (int (length (trim s)) - 15) 15"
  assume z: "rtl_total 15 ?win mod 10 = 0" and v: "validFedexGround s"
  from v have "is_digit (?win ! 14)" "digit_val (?win ! 14) = 10 - rtl_total 15 ?win mod 10"
    by (simp_all add: FedexGround_char Let_def)
  then show False using z digit_val_range [of "?win ! 14"] by simp
qed

lemma USPS_multiple_of_10:
  "rtl_total 22 (substr (trim s) (int (length (trim s)) - 22) 22) mod 10 = 0 \<Longrightarrow>
   \<not> validUSPS s"
proof
  let ?win = "substr (trim s) (int (length (trim s)) - 22) 22"
  assume z: "rtl_total 22 ?win mod 10 = 0" and v: "validUSPS s"
  from v have "is_digit (?win ! 21)" "digit_val (?win ! 21) = 10 - rtl_total 22 ?win mod 10"
    by (simp_all add: USPS_char Let_def)
  then show False using z digit_val_range [of "?win ! 21"] by simp
qed

text \<open>
  When the total is no multiple of 10 the validator does compare
  \<open>(10 - total mod 10) mod 10\<close> with the last character read as a digit.
\<close>

lemma FedexGround_other_totals:
  assumes "Ground_gate (trim s)"
    and "\<forall>k<14. is_digit (substr (trim s) (int (length (trim s)) - 15) 15 ! k)"
    and "rtl_total 15 (substr (trim s) (int (length (trim s)) - 15) 15) mod 10 \<noteq> 0"
  shows "validFedexGround s \<longleftrightarrow>
    is_digit (substr (trim s) (int (length (trim s)) - 15) 15 ! 14) \<and>
    digit_val (substr (trim s) (int (length (trim s)) - 15) 15 ! 14) =
      (10 - rtl_total 15 (substr (trim s) (int (length (trim s)) - 15) 15) mod 10) mod 10"
proof -
  let ?T = "rtl_total 15 (substr (trim s) (int (length (trim s)) - 15) 15)"
  have r: "0 \<le> ?T mod 10" "?T mod 10 < 10" by simp_all
  have "(10 - ?T mod 10) mod 10 = 10 - ?T mod 10"
    by (rule mod_pos_pos_trivial) (use r assms(3) in linarith)+
  then show ?thesis
    using assms(1,2) by (simp add: FedexGround_char Ground_gate_def Let_def)
qed

lemma USPS_other_totals:
  assumes "USPS_gate (trim s)"
    and "\<forall>k<21. is_digit (substr (trim s) (int (length (trim s)) - 22) 22 ! k)"
    and "rtl_total 22 (substr (trim s) (int (length (trim s)) - 22) 22) mod 10 \<noteq> 0"
  shows "validUSPS s \<longleftrightarrow>
    is_digit (substr (trim s) (int (length (trim s)) - 22) 22 ! 21) \<and>
    digit_val (substr (trim s) (int (length (trim s)) - 22) 22 ! 21) =
      (10 - rtl_total 22 (substr (trim s) (int (length (trim s)) - 22) 22) mod 10) mod 10"
proof -
  let ?T = "rtl_total 22 (substr (trim s) (int (length (trim s)) - 22) 22)"
  have r: "0 \<le> ?T mod 10" "?T mod 10 < 10" by simp_all
  have "(10 - ?T mod 10) mod 10 = 10 - ?T mod 10"
    by (rule mod_pos_pos_trivial) (use r assms(3) in linarith)+
  then show ?thesis
    using assms(1,2) by (simp add: USPS_char USPS_gate_def Let_def)
qed

text \<open>
  C1.  The claim has the FedEx Ground validator (and the USPS validator, with width 22)
  accept iff \<open>(10 - total mod 10) mod 10\<close> equals the last character of the window read
  as a digit, so that a window whose weighted total is a multiple of 10 is accepted
  exactly when it ends in \<open>0\<close>.  The code compares \<open>10 - total % 10\<close> without the final
  reduction: \<open>960000000000300\<close> passes the Ground tests, its first 14 characters are
  digits, its total is 30 and its last character is \<open>0\<close>, and it is rejected; so is
  \<open>9100000000000000000200\<close> by the USPS validator.
\<close>

theorem check_digit_0_rejected:
  "Ground_gate (trim (js ''960000000000300'')) \<and>
   substr (trim (js ''960000000000300'')) (int (length (trim (js ''960000000000300''))) - 15) 15
     = js ''960000000000300'' \<and>
   list_all is_digit (take 14 (js ''960000000000300'')) \<and>
   rtl_total 15 (js ''960000000000300'') = 30 \<and>
   js ''960000000000300'' ! 14 = of_char CHR ''0'' \<and>
   (10 - rtl_total 15 (js ''960000000000300'') mod 10) mod 10
     = digit_val (js ''960000000000300'' ! 14) \<and>
   \<not> validFedexGround (js ''960000000000300'') \<and>
   USPS_gate (trim (js ''9100000000000000000200'')) \<and>
   substr (trim (js ''9100000000000000000200''))
       (int (length (trim (js ''9100000000000000000200''))) - 22) 22
     = js ''9100000000000000000200'' \<and>
   list_all is_digit (take 21 (js ''9100000000000000000200'')) \<and>
   rtl_total 22 (js ''9100000000000000000200'') = 30 \<and>
   (10 - rtl_total 22 (js ''9100000000000000000200'') mod 10) mod 10
     = digit_val (js ''9100000000000000000200'' ! 21) \<and>
   \<not> validUSPS (js ''9100000000000000000200'')"
  by code_simp

section \<open>UPS\<close>

lemma ValidChars_validnumbers: "ValidChars = validnumbers"
  by (simp add: ValidChars_def validnumbers_def)

lemma charCodeAt_in:
  "0 \<le> i \<Longrightarrow> i < int (length s) \<Longrightarrow> charCodeAt s i = Num (uint (s ! nat i))"
  by (simp add: charCodeAt_def)

lemma UPS_loop_not_NaN:
  "0 \<le> i \<Longrightarrow> tot \<noteq> NaN \<Longrightarrow> UPS_loop number i tot \<noteq> NaN"
proof (induction number i tot rule: UPS_loop.induct)
  case (1 number i tot)
  show ?case
  proof (cases "i < int (length number)")
    case False
    then show ?thesis using 1(6) by (subst UPS_loop.simps) simp
  next
    case True
    have ch: "charAt number i = Chr (number ! nat i)"
      using True 1(5) by (simp add: charAt_in)
    have cc: "charCodeAt number i = Num (uint (number ! nat i))"
      using True 1(5) by (simp add: charCodeAt_in)
    have i1: "0 \<le> i + 1" using 1(5) by simp
    note ih = 1(1-4) [OF True ch[symmetric], simplified ch cc]
    show ?thesis
    proof (cases "is_digit (number ! nat i)")
      case d: True
      have nd: "Number (Chr (number ! nat i)) = Num (digit_val (number ! nat i))"
        using d by (rule Number_digit)
      show ?thesis
        apply (subst UPS_loop.simps)
        using True d 1(6) i1 ih(1,3)
        by (cases tot)
          (simp_all add: ch cc ValidChars_validnumbers index_of_validnumbers nd Let_def
            del: Number.simps)
    next
      case nd: False
      show ?thesis
        apply (subst UPS_loop.simps)
        using True nd 1(6) i1 ih(2,4)
        by (cases tot)
          (simp_all add: ch cc ValidChars_validnumbers index_of_validnumbers Let_def
            del: Number.simps)
    qed
  qed
qed

lemma UPS_digit_Num: "\<exists>d. UPS_digit t = Num d \<and> - 9 \<le> d \<and> d \<le> 9"
proof -
  have "UPS_loop (substr t 2 15) 0 (Num 0) \<noteq> NaN"
    by (rule UPS_loop_not_NaN) simp_all
  then obtain r where r: "UPS_loop (substr t 2 15) 0 (Num 0) = Num r"
    by (cases "UPS_loop (substr t 2 15) 0 (Num 0)") simp_all
  define m where "m = \<bar>r\<bar> mod 10"
  have m: "0 \<le> m" "m \<le> 9" by (simp_all add: m_def)
  have "js_rem r 10 = sgn r * m" by (simp add: js_rem_def m_def)
  moreover have "sgn r = - 1 \<or> sgn r = 0 \<or> sgn r = 1" by (auto simp: sgn_if)
  ultimately have "- 9 \<le> js_rem r 10 \<and> js_rem r 10 \<le> 9"
    using m by auto
  then show ?thesis by (simp add: UPS_digit_def r)
qed

lemma validUPS_char:
  assumes len: "length (trim s) = 18" and pre: "substr (trim s) 0 2 = js ''1Z''"
    and dg: "UPS_digit (trim s) = Num d"
  shows "validUPS s \<longleftrightarrow>
    d \<le> 0 \<or> (is_digit (trim s ! 17) \<and>
      (digit_val (trim s ! 17) = d \<or> digit_val (trim s ! 17) = 10 - d))"
proof -
  let ?t = "trim s"
  have ne: "?t \<noteq> []" using len by auto
  have l17: "last ?t = ?t ! 17" using len ne by (simp add: last_conv_nth)
  have ch: "charAt ?t 17 = Chr (?t ! 17)" using len by (simp add: charAt_def)
  have num: "Number (Chr (?t ! 17)) =
      (if is_digit (?t ! 17) then Num (digit_val (?t ! 17)) else NaN)"
    using Number_last_trim [OF ne] by (simp only: l17)
  have dg': "num_rem (UPS_loop (substr ?t 2 15) 0 (Num 0)) (Num 10) = Num d"
    using dg by (simp only: UPS_digit_def)
  have "validUPS s \<longleftrightarrow>
      (if \<not> num_eq (Num d) (Number (Chr (?t ! 17))) \<and> num_gt (Num d) (Num 0)
       then num_eq (Num 10 - Num d) (Number (Chr (?t ! 17))) else True)"
    using len pre by (simp add: validUPS_def Let_def ch dg' del: Number.simps num_rem.simps)
  also have "\<dots> \<longleftrightarrow> d \<le> 0 \<or> (is_digit (?t ! 17) \<and>
      (digit_val (?t ! 17) = d \<or> digit_val (?t ! 17) = 10 - d))"
    by (auto simp: num simp del: Number.simps)
  finally show ?thesis .
qed

lemma digit_char_props:
  assumes "0 \<le> d" "d \<le> 9"
  shows "is_digit (digit_char d) \<and> digit_val (digit_char d) = d"
proof -
  have u: "uint (digit_char d) = 48 + d"
    unfolding digit_char_def uint_word_of_int using assms by simp
  show ?thesis
    using assms by (simp add: is_digit_def digit_val_def word_le_def u)
qed

lemma UPS_replace_check:
  assumes len: "length t = 18" and pre: "substr t 0 2 = js ''1Z''" and c: "is_digit c"
  shows "trim (take 17 t @ [c]) = take 17 t @ [c]"
    and "substr (take 17 t @ [c]) 0 2 = js ''1Z''"
    and "UPS_digit (take 17 t @ [c]) = UPS_digit t"
    and "(take 17 t @ [c]) ! 17 = c"
proof -
  from pre have t2: "take 2 t = js ''1Z''" by (simp add: substr_def)
  have "hd t = hd (take 2 t)" using len by (cases t) simp_all
  then have "hd t = 0x31" by (simp add: t2 js_def)
  then have h: "\<not> is_ws (hd (take 17 t @ [c]))"
    using len by (cases t) (simp_all add: is_ws_def)
  have l: "\<not> is_ws (last (take 17 t @ [c]))" using c by (simp add: digit_not_ws)
  show "trim (take 17 t @ [c]) = take 17 t @ [c]"
    by (rule trim_id) (use h l in simp_all)
  have "take 2 (take 17 t @ [c]) = take 2 t" using len by simp
  then show "substr (take 17 t @ [c]) 0 2 = js ''1Z''" by (simp add: substr_def t2)
  have "take 15 (drop 2 (take 17 t @ [c])) = take 15 (drop 2 t)"
    using len by (simp add: drop_take)
  then show "UPS_digit (take 17 t @ [c]) = UPS_digit t"
    by (simp add: UPS_digit_def substr_def)
  show "(take 17 t @ [c]) ! 17 = c" using len by (simp add: nth_append)
qed

lemma validUPS_replaced:
  assumes len: "length t = 18" and pre: "substr t 0 2 = js ''1Z''" and c: "is_digit c"
    and dg: "UPS_digit t = Num d"
  shows "validUPS (take 17 t @ [c]) \<longleftrightarrow> d \<le> 0 \<or> digit_val c = d \<or> digit_val c = 10 - d"
proof -
  note r = UPS_replace_check [OF len pre c]
  have "validUPS (take 17 t @ [c]) \<longleftrightarrow>
    d \<le> 0 \<or> (is_digit (trim (take 17 t @ [c]) ! 17) \<and>
      (digit_val (trim (take 17 t @ [c]) ! 17) = d \<or>
       digit_val (trim (take 17 t @ [c]) ! 17) = 10 - d))"
    by (rule validUPS_char) (simp_all add: r len dg)
  then show ?thesis by (simp add: r c)
qed

text \<open>
  The running total is negative for some bodies with characters below \<open>?\<close> (code 63)
  that are no digits, and \<open>digit\<close> with it; the validator then accepts whatever the last
  character is, as it does for \<open>digit = 0\<close>.
\<close>

lemma UPS_nonpositive_digit:
  "length (trim s) = 18 \<Longrightarrow> substr (trim s) 0 2 = js ''1Z'' \<Longrightarrow>
   UPS_digit (trim s) = Num d \<Longrightarrow> d \<le> 0 \<Longrightarrow> validUPS s"
  by (simp add: validUPS_char)

lemma UPS_negative_digit_example:
  "UPS_digit (trim (js ''1Z0/00000000000000'')) = Num (- 6) \<and>
   validUPS (js ''1Z0/00000000000000'') \<and> validUPS (js ''1Z0/00000000000007'')"
  by code_simp

text \<open>
  C9.  For a trimmed string of 18 characters that begins with \<open>1Z\<close>, let \<open>d\<close> be the
  value of \<open>digit\<close>, the running total over the 15 characters of the body \<open>% 10\<close>.  If
  \<open>d = 0\<close> the validator accepts whatever the last character is; if \<open>d > 0\<close> it accepts
  exactly when the last character is a digit of value \<open>d\<close> or \<open>10 - d\<close>; and when \<open>d\<close> is
  neither 0 nor 5, two different check characters validate the same first 17 characters.
\<close>

theorem UPS_check_digit:
  assumes len: "length (trim s) = 18" and pre: "substr (trim s) 0 2 = js ''1Z''"
  shows "\<exists>d. UPS_digit (trim s) = Num d \<and>
    (d = 0 \<longrightarrow> validUPS s) \<and>
    (0 < d \<longrightarrow> (validUPS s \<longleftrightarrow>
       is_digit (trim s ! 17) \<and>
       (digit_val (trim s ! 17) = d \<or> digit_val (trim s ! 17) = 10 - d))) \<and>
    (d \<notin> {0, 5} \<longrightarrow> (\<exists>c1 c2. c1 \<noteq> c2 \<and> is_digit c1 \<and> is_digit c2 \<and>
       validUPS (take 17 (trim s) @ [c1]) \<and> validUPS (take 17 (trim s) @ [c2])))"
proof -
  obtain d where d: "UPS_digit (trim s) = Num d" and lo: "- 9 \<le> d" and hi: "d \<le> 9"
    using UPS_digit_Num [of "trim s"] by blast
  note ch = validUPS_char [OF len pre d]
  have two: "\<exists>c1 c2. c1 \<noteq> c2 \<and> is_digit c1 \<and> is_digit c2 \<and>
       validUPS (take 17 (trim s) @ [c1]) \<and> validUPS (take 17 (trim s) @ [c2])"
    if nd: "d \<notin> {0, 5}"
  proof (cases "d < 0")
    case True
    have p0: "is_digit (digit_char 0)" "digit_val (digit_char 0) = 0"
      and p1: "is_digit (digit_char 1)" "digit_val (digit_char 1) = 1"
      using digit_char_props [of 0] digit_char_props [of 1] by simp_all
    have "digit_char 0 \<noteq> digit_char 1" using p0(2) p1(2) by auto
    moreover have "validUPS (take 17 (trim s) @ [digit_char 0])"
      using validUPS_replaced [OF len pre p0(1) d] True by simp
    moreover have "validUPS (take 17 (trim s) @ [digit_char 1])"
      using validUPS_replaced [OF len pre p1(1) d] True by simp
    ultimately show ?thesis using p0(1) p1(1) by blast
  next
    case False
    with nd have pos: "0 < d" "d \<noteq> 5" by simp_all
    have pa: "is_digit (digit_char d)" "digit_val (digit_char d) = d"
      and pb: "is_digit (digit_char (10 - d))" "digit_val (digit_char (10 - d)) = 10 - d"
      using digit_char_props [of d] digit_char_props [of "10 - d"] pos hi by simp_all
    have "digit_char d \<noteq> digit_char (10 - d)"
    proof
      assume "digit_char d = digit_char (10 - d)"
      then have "digit_val (digit_char d) = digit_val (digit_char (10 - d))" by simp
      then show False using pa(2) pb(2) pos by simp
    qed
    moreover have "validUPS (take 17 (trim s) @ [digit_char d])"
      using validUPS_replaced [OF len pre pa(1) d] pa(2) by simp
    moreover have "validUPS (take 17 (trim s) @ [digit_char (10 - d)])"
      using validUPS_replaced [OF len pre pb(1) d] pb(2) by simp
    ultimately show ?thesis using pa(1) pb(1) by blast
  qed
  have a: "d = 0 \<longrightarrow> validUPS s" using ch by simp
  have b: "0 < d \<longrightarrow> (validUPS s \<longleftrightarrow>
       is_digit (trim s ! 17) \<and>
       (digit_val (trim s ! 17) = d \<or> digit_val (trim s ! 17) = 10 - d))"
    using ch by auto
  have c: "d \<notin> {0, 5} \<longrightarrow> (\<exists>c1 c2. c1 \<noteq> c2 \<and> is_digit c1 \<and> is_digit c2 \<and>
       validUPS (take 17 (trim s) @ [c1]) \<and> validUPS (take 17 (trim s) @ [c2]))"
    using two by (rule impI)
  show ?thesis
    by (rule exI [of _ d]) (intro conjI d a b c)
qed

theorem UPS_check_digit_witness:
  "length (trim (js ''1Z999AA10123456784'')) = 18 \<and>
   substr (trim (js ''1Z999AA10123456784'')) 0 2 = js ''1Z'' \<and>
   UPS_digit (trim (js ''1Z999AA10123456784'')) = Num 6 \<and>
   digit_val (trim (js ''1Z999AA10123456784'') ! 17) = 4 \<and>
   validUPS (js ''1Z999AA10123456784'') \<and>
   UPS_digit (trim (js ''1Z0000000000000009'')) = Num 0 \<and>
   validUPS (js ''1Z0000000000000009'')"
proof -
  have len: "length (trim (js ''1Z999AA10123456784'')) = 18" by code_simp
  have pre: "substr (trim (js ''1Z999AA10123456784'')) 0 2 = js ''1Z''" by code_simp
  have d: "UPS_digit (trim (js ''1Z999AA10123456784'')) = Num 6" by code_simp
  have c: "is_digit (trim (js ''1Z999AA10123456784'') ! 17)"
    "digit_val (trim (js ''1Z999AA10123456784'') ! 17) = 4" by code_simp+
  have len0: "length (trim (js ''1Z0000000000000009'')) = 18" by code_simp
  have pre0: "substr (trim (js ''1Z0000000000000009'')) 0 2 = js ''1Z''" by code_simp
  have d0: "UPS_digit (trim (js ''1Z0000000000000009'')) = Num 0" by code_simp
  show ?thesis
    using UPS_check_digit [OF len pre] UPS_check_digit [OF len0 pre0] len pre d c d0 by auto
qed

text \<open>
  C2, as stated, fails: the validator never tests what kind of character the body holds.
  A character that is no digit is folded by \<open>(code - 63) % 10\<close>, letter or not, and
  \<open>1Z!000000000000000\<close> is accepted.
\<close>

theorem UPS_body_not_checked:
  "validUPS (js ''1Z!000000000000000'') \<and>
   substr (trim (js ''1Z!000000000000000'')) 2 15 ! 0 = of_char CHR ''!'' \<and>
   \<not> is_digit (of_char CHR ''!'') \<and> \<not> is_letter (of_char CHR ''!'')"
  by code_simp

text \<open>
  C2, amended.  The UPS validator returns false for every input whose trimmed form is
  not exactly 18 characters long or does not begin with \<open>1Z\<close>: acceptance is only
  possible when both hold.
\<close>

theorem UPS_length_prefix:
  "length (trim s) \<noteq> 18 \<or> substr (trim s) 0 2 \<noteq> js ''1Z'' \<Longrightarrow> \<not> validUPS s"
  by (auto simp: validUPS_def Let_def)

theorem UPS_length_prefix_witness:
  "length (trim (js ''1Z999AA1012345678'')) \<noteq> 18 \<and> \<not> validUPS (js ''1Z999AA1012345678'') \<and>
   substr (trim (js ''2Z999AA10123456784'')) 0 2 \<noteq> js ''1Z'' \<and>
   \<not> validUPS (js ''2Z999AA10123456784'')"
proof -
  have a: "length (trim (js ''1Z999AA1012345678'')) \<noteq> 18" by code_simp
  have b: "substr (trim (js ''2Z999AA10123456784'')) 0 2 \<noteq> js ''1Z''" by code_simp
  show ?thesis
    using a b UPS_length_prefix [of "js ''1Z999AA1012345678''"]
      UPS_length_prefix [of "js ''2Z999AA10123456784''"]
    by simp
qed

section \<open>The length and prefix tests\<close>

lemma prefix_sets:
  "index_of valid_prefixes p \<noteq> -1 \<longleftrightarrow> p = js ''96'' \<or> p = js ''00''"
  "index_of valid_prefix p \<noteq> -1 \<longleftrightarrow>
     p = js ''91'' \<or> p = js ''71'' \<or> p = js ''73'' \<or> p = js ''77'' \<or> p = js ''81''"
  by (auto simp: index_of_none_iff valid_prefixes_def valid_prefix_def)

text \<open>What the validators accept passes their tests on length and prefix.\<close>

lemma validUPS_gate: "validUPS s \<Longrightarrow> UPS_gate (trim s)"
  by (auto simp: validUPS_def UPS_gate_def Let_def split: if_splits)

lemma validFedexGround_gate: "validFedexGround s \<Longrightarrow> Ground_gate (trim s)"
  by (simp add: FedexGround_char Ground_gate_def)

lemma validUSPS_gate: "validUSPS s \<Longrightarrow> USPS_gate (trim s)"
  by (simp add: USPS_char USPS_gate_def)

lemma validFedexExpress_gate: "validFedexExpress s \<Longrightarrow> Express_gate (trim s)"
proof -
  assume v: "validFedexExpress s"
  have len: "length (trim s) = 12"
    using v by (auto simp: validFedexExpress_def Let_def split: if_splits)
  have "Express_loop (trim s) 0 (Num 0) \<noteq> None"
    using v len by (auto simp: validFedexExpress_def Let_def split: option.splits)
  then have "\<forall>k<11. is_digit (trim s ! k)"
    using Express_loop_eq [of 0 "trim s" "Num 0"] len
    by (auto simp: atLeast0LessThan split: if_splits)
  then have "list_all is_digit (take 11 (trim s))"
    using len by (simp add: list_all_length)
  then show ?thesis using len by (simp add: Express_gate_def)
qed

text \<open>
  C8.  At most one of the four tests on length and prefix holds of a string: UPS
  (length 18 and prefix \<open>1Z\<close>), FedEx Express (length 12, first 11 characters digits),
  FedEx Ground (length at least 15, prefix \<open>96\<close> or \<open>00\<close>), USPS (length at least 22,
  prefix one of \<open>91 71 73 77 81\<close>, first three characters not \<open>420\<close>).
\<close>

theorem gates_exclusive:
  "of_bool (UPS_gate t) + of_bool (Express_gate t) + of_bool (Ground_gate t)
     + of_bool (USPS_gate t) \<le> (1::nat)"
proof -
  have "\<not> (UPS_gate t \<and> Express_gate t)" "\<not> (UPS_gate t \<and> USPS_gate t)"
    "\<not> (Express_gate t \<and> Ground_gate t)" "\<not> (Express_gate t \<and> USPS_gate t)"
    by (auto simp: UPS_gate_def Express_gate_def Ground_gate_def USPS_gate_def)
  moreover have "\<not> (UPS_gate t \<and> Ground_gate t)"
    by (auto simp: UPS_gate_def Ground_gate_def prefix_sets js_def)
  moreover have "\<not> (Ground_gate t \<and> USPS_gate t)"
    by (auto simp: Ground_gate_def USPS_gate_def prefix_sets js_def)
  ultimately show ?thesis by (auto simp: of_bool_def)
qed

theorem gates_exclusive_witness:
  "UPS_gate (trim (js ''1Z999AA10123456784'')) \<and>
   of_bool (UPS_gate (trim (js ''1Z999AA10123456784'')))
     + of_bool (Express_gate (trim (js ''1Z999AA10123456784'')))
     + of_bool (Ground_gate (trim (js ''1Z999AA10123456784'')))
     + of_bool (USPS_gate (trim (js ''1Z999AA10123456784''))) \<le> (1::nat) \<and>
   Ground_gate (trim (js ''9600000000000000000002'')) \<and>
   of_bool (UPS_gate (trim (js ''9600000000000000000002'')))
     + of_bool (Express_gate (trim (js ''9600000000000000000002'')))
     + of_bool (Ground_gate (trim (js ''9600000000000000000002'')))
     + of_bool (USPS_gate (trim (js ''9600000000000000000002''))) \<le> (1::nat)"
proof -
  have a: "UPS_gate (trim (js ''1Z999AA10123456784''))" by code_simp
  have b: "Ground_gate (trim (js ''9600000000000000000002''))" by code_simp
  show ?thesis
    using a b gates_exclusive [of "trim (js ''1Z999AA10123456784'')"]
      gates_exclusive [of "trim (js ''9600000000000000000002'')"]
    by simp
qed

text \<open>
  C10.  The \<open>420\<close> clause of the USPS validator decides nothing: a string whose first
  three characters are \<open>420\<close> already fails the test on the first two, and the validator
  without the clause gives the same result on every input.
\<close>

theorem USPS_420_clause_redundant:
  "validUSPS_no420 s = validUSPS s \<and>
   (substr (trim s) 0 3 = js ''420'' \<longrightarrow>
      index_of valid_prefix (substr (trim s) 0 2) = -1)"
proof -
  have r: "index_of valid_prefix (substr t 0 2) = -1" if "substr t 0 3 = js ''420''" for t
  proof -
    from that have "take 3 t = js ''420''" by (simp add: substr_def)
    then have "take 2 (take 3 t) = take 2 (js ''420'')" by simp
    then have "take 2 t = js ''42''" by (simp add: js_def)
    then have "substr t 0 2 = js ''42''" by (simp add: substr_def)
    then show ?thesis
      using prefix_sets(2) [of "js ''42''"] by (simp add: js_def)
  qed
  show ?thesis
    using r [of "trim s"] by (auto simp: validUSPS_no420_def validUSPS_def Let_def)
qed

theorem USPS_420_clause_redundant_witness:
  "substr (trim (js ''4200000000000000000000'')) 0 3 = js ''420'' \<and>
   index_of valid_prefix (substr (trim (js ''4200000000000000000000'')) 0 2) = -1 \<and>
   validUSPS (js ''9100000000000000000002'') \<and>
   validUSPS_no420 (js ''9100000000000000000002'')"
proof -
  have a: "substr (trim (js ''4200000000000000000000'')) 0 3 = js ''420''" by code_simp
  have b: "validUSPS (js ''9100000000000000000002'')" by code_simp
  show ?thesis
    using a b USPS_420_clause_redundant [of "js ''4200000000000000000000''"]
      USPS_420_clause_redundant [of "js ''9100000000000000000002''"]
    by simp
qed

section \<open>The dispatcher\<close>

text \<open>C3, as stated, fails: the dispatcher does not reject \<open>1Z999AA10123456784\<close>.\<close>

theorem classify_1Z999AA10123456784_not_rejected:
  "IsTrackingNumber (js ''1Z999AA10123456784'') \<noteq> None"
  by code_simp

text \<open>
  C3, amended.  The string \<open>1Z999AA10123456784\<close> has 18 characters, not 19; it starts
  with \<open>1Z\<close> and its check digit is right, and the dispatcher classifies it as UPS.
\<close>

theorem classify_1Z999AA10123456784_ups:
  "length (trim (js ''1Z999AA10123456784'')) = 18 \<and>
   validUPS (js ''1Z999AA10123456784'') \<and>
   IsTrackingNumber (js ''1Z999AA10123456784'') = Some (js ''ups'')"
  by code_simp

text \<open>
  C5.  The dispatcher tries UPS, then FedEx Express, then FedEx Ground, then USPS, and
  returns the tag of the first validator that accepts; it returns nothing exactly when
  none accepts.
\<close>

theorem dispatcher_order:
  "(validUPS s \<longrightarrow> IsTrackingNumber s = Some (js ''ups'')) \<and>
   (\<not> validUPS s \<and> (validFedexExpress s \<or> validFedexGround s) \<longrightarrow>
      IsTrackingNumber s = Some (js ''fedex'')) \<and>
   (\<not> validUPS s \<and> \<not> validFedexExpress s \<and> \<not> validFedexGround s \<and> validUSPS s \<longrightarrow>
      IsTrackingNumber s = Some (js ''usps'')) \<and>
   (IsTrackingNumber s = None \<longleftrightarrow>
      \<not> validUPS s \<and> \<not> validFedexExpress s \<and> \<not> validFedexGround s \<and> \<not> validUSPS s)"
  by (simp add: IsTrackingNumber_def)

theorem dispatcher_order_witness:
  "validUPS (js ''1Z999AA10123456784'') \<and>
   IsTrackingNumber (js ''1Z999AA10123456784'') = Some (js ''ups'') \<and>
   \<not> validUPS (js ''123456789012'') \<and> validFedexExpress (js ''123456789012'') \<and>
   IsTrackingNumber (js ''123456789012'') = Some (js ''fedex'') \<and>
   \<not> validUPS (js ''960000000000003'') \<and> \<not> validFedexExpress (js ''960000000000003'') \<and>
   validFedexGround (js ''960000000000003'') \<and>
   IsTrackingNumber (js ''960000000000003'') = Some (js ''fedex'') \<and>
   \<not> validUPS (js ''9100000000000000000002'') \<and>
   \<not> validFedexExpress (js ''9100000000000000000002'') \<and>
   \<not> validFedexGround (js ''9100000000000000000002'') \<and>
   validUSPS (js ''9100000000000000000002'') \<and>
   IsTrackingNumber (js ''9100000000000000000002'') = Some (js ''usps'') \<and>
   \<not> validUPS (js ''hello'') \<and> \<not> validFedexExpress (js ''hello'') \<and>
   \<not> validFedexGround (js ''hello'') \<and> \<not> validUSPS (js ''hello'') \<and>
   IsTrackingNumber (js ''hello'') = None"
proof -
  have a: "validUPS (js ''1Z999AA10123456784'')" by code_simp
  have b: "\<not> validUPS (js ''123456789012'')" "validFedexExpress (js ''123456789012'')"
    by code_simp+
  have c: "\<not> validUPS (js ''960000000000003'')" "\<not> validFedexExpress (js ''960000000000003'')"
    "validFedexGround (js ''960000000000003'')"
    by code_simp+
  have d: "\<not> validUPS (js ''9100000000000000000002'')"
    "\<not> validFedexExpress (js ''9100000000000000000002'')"
    "\<not> validFedexGround (js ''9100000000000000000002'')"
    "validUSPS (js ''9100000000000000000002'')"
    by code_simp+
  have e: "\<not> validUPS (js ''hello'')" "\<not> validFedexExpress (js ''hello'')"
    "\<not> validFedexGround (js ''hello'')" "\<not> validUSPS (js ''hello'')"
    by code_simp+
  show ?thesis
    using a b c d e
      dispatcher_order [of "js ''1Z999AA10123456784''"]
      dispatcher_order [of "js ''123456789012''"]
      dispatcher_order [of "js ''960000000000003''"]
      dispatcher_order [of "js ''9100000000000000000002''"]
      dispatcher_order [of "js ''hello''"]
    by simp
qed

text \<open>
  C7.  A string whose trimmed form has fewer than 12 characters is classified as no
  carrier: each of the four validators returns false at its length test.
\<close>

theorem under_length_rejected:
  "length (trim s) < 12 \<Longrightarrow>
   IsTrackingNumber s = None \<and> \<not> validUPS s \<and> \<not> validFedexExpress s \<and>
   \<not> validFedexGround s \<and> \<not> validUSPS s"
  by (simp add: IsTrackingNumber_def validUPS_def validFedexExpress_def validFedexGround_def
      validUSPS_def)

theorem under_length_rejected_witness:
  "length (trim (js ''  12345678901 '')) < 12 \<and>
   IsTrackingNumber (js ''  12345678901 '') = None \<and>
   \<not> validFedexExpress (js ''  12345678901 '')"
proof -
  have h: "length (trim (js ''  12345678901 '')) < 12" by code_simp
  show ?thesis using h under_length_rejected [OF h] by simp
qed

section \<open>The URL builder\<close>

lemma tags_distinct:
  "js ''ups'' \<noteq> js ''fedex''" "js ''ups'' \<noteq> js ''usps''" "js ''fedex'' \<noteq> js ''usps''"
  by (simp_all add: js_def)

text \<open>
  C6.  The URL builder returns nothing iff the dispatcher classifies the string as no
  carrier; otherwise it returns the carrier's URL template followed by the string as it
  was given: not trimmed, not escaped.
\<close>

theorem url_builder:
  "(GetTrackingURL s = None \<longleftrightarrow> IsTrackingNumber s = None) \<and>
   (IsTrackingNumber s = Some (js ''ups'') \<longrightarrow>
      GetTrackingURL s = Some (js ''http://wwwapps.ups.com/tracking/tracking.cgi?tracknum='' @ s)) \<and>
   (IsTrackingNumber s = Some (js ''fedex'') \<longrightarrow>
      GetTrackingURL s = Some (js ''http://www.fedex.com/Tracking?tracknumbers='' @ s)) \<and>
   (IsTrackingNumber s = Some (js ''usps'') \<longrightarrow>
      GetTrackingURL s = Some (js ''http://trkcnfrm1.smi.usps.com/PTSInternetWeb/InterLabelInquiry.do?strOrigTrackNum='' @ s)) \<and>
   IsTrackingNumber s \<in> {None, Some (js ''ups''), Some (js ''fedex''), Some (js ''usps'')}"
proof -
  have r: "IsTrackingNumber s \<in> {None, Some (js ''ups''), Some (js ''fedex''), Some (js ''usps'')}"
    by (simp add: IsTrackingNumber_def)
  show ?thesis
    using r tags_distinct by (auto simp: GetTrackingURL_def Let_def)
qed

theorem url_builder_witness:
  "IsTrackingNumber (js '' 1Z999AA10123456784  '') = Some (js ''ups'') \<and>
   GetTrackingURL (js '' 1Z999AA10123456784  '') =
     Some (js ''http://wwwapps.ups.com/tracking/tracking.cgi?tracknum= 1Z999AA10123456784  '') \<and>
   IsTrackingNumber (js ''123456789012'') = Some (js ''fedex'') \<and>
   GetTrackingURL (js ''123456789012'') =
     Some (js ''http://www.fedex.com/Tracking?tracknumbers=123456789012'') \<and>
   IsTrackingNumber (js ''9100000000000000000002'') = Some (js ''usps'') \<and>
   GetTrackingURL (js ''9100000000000000000002'') =
     Some (js ''http://trkcnfrm1.smi.usps.com/PTSInternetWeb/InterLabelInquiry.do?strOrigTrackNum=9100000000000000000002'') \<and>
   IsTrackingNumber (js ''hello'') = None \<and> GetTrackingURL (js ''hello'') = None"
proof -
  have a: "IsTrackingNumber (js '' 1Z999AA10123456784  '') = Some (js ''ups'')" by code_simp
  have b: "IsTrackingNumber (js ''123456789012'') = Some (js ''fedex'')" by code_simp
  have c: "IsTrackingNumber (js ''9100000000000000000002'') = Some (js ''usps'')" by code_simp
  have d: "IsTrackingNumber (js ''hello'') = None" by code_simp
  have app: "js x @ js y = js (x @ y)" for x y by (simp add: js_def)
  show ?thesis
    using a b c d
      url_builder [of "js '' 1Z999AA10123456784  ''"]
      url_builder [of "js ''123456789012''"]
      url_builder [of "js ''9100000000000000000002''"]
      url_builder [of "js ''hello''"]
    by (simp add: app)
qed

end
